theory Spec2Isabelle
  imports Main "HOL-Library.Multiset"
begin

section \<open>Syntax trees, nodes and cursors\<close>

text \<open>
  The traversal code of \<^verbatim>\<open>src/main.py\<close> uses three classes of the parsing library:
  \<^verbatim>\<open>Tree\<close> (with \<^verbatim>\<open>walk()\<close>), \<^verbatim>\<open>Node\<close> (with \<^verbatim>\<open>children\<close> and \<^verbatim>\<open>walk()\<close>) and
  \<^verbatim>\<open>TreeCursor\<close> (with \<^verbatim>\<open>node\<close>). The parsed structure is an immutable ordered tree of
  arbitrary arity. A node is a position in that structure: two nodes are the same node
  when they sit at the same place, not when their subtrees look alike. A node is therefore
  the path that leads to it together with the structure found there.
\<close>

datatype subtree = Subtree (kind: string) (parts: "subtree list")

datatype node = Node (path: "nat list") (subtree_of: subtree)

definition children :: "node \<Rightarrow> node list" where
  "children n =
     map (\<lambda>(i, s). Node (path n @ [i]) s) (enumerate 0 (parts (subtree_of n)))"

datatype cursor = TreeCursor (cursor_node: node)

definition walk :: "node \<Rightarrow> cursor" where
  "walk n = TreeCursor n"

datatype tree = Tree (root_node: node)

definition tree_walk :: "tree \<Rightarrow> cursor" where
  "tree_walk ast = TreeCursor (root_node ast)"

section \<open>Exceptions and the store of deques\<close>

datatype error = ValueError string | IndexError

text \<open>
  A \<^verbatim>\<open>deque\<close> is a mutable object. The breadth-first walker creates one and hands the
  same object to the generator it delegates to, so deques live in a store and the frames
  hold references. \<open>used\<close> is the next free reference.
\<close>

record heap =
  cells :: "nat \<Rightarrow> node list"
  used :: nat


definition deque :: "node list \<Rightarrow> heap \<Rightarrow> nat \<times> heap" where
  "deque xs h = (used h, h\<lparr>cells := (cells h)(used h := xs), used := Suc (used h)\<rparr>)"

definition len :: "heap \<Rightarrow> nat \<Rightarrow> nat" where
  "len h q = length (cells h q)"

definition popleft :: "heap \<Rightarrow> nat \<Rightarrow> error + node \<times> heap" where
  "popleft h q =
     (case cells h q of
        [] \<Rightarrow> Inl IndexError
      | x # xs \<Rightarrow> Inr (x, h\<lparr>cells := (cells h)(q := xs)\<rparr>))"

definition extend :: "heap \<Rightarrow> nat \<Rightarrow> node list \<Rightarrow> heap" where
  "extend h q ys = h\<lparr>cells := (cells h)(q := cells h q @ ys)\<rparr>"

section \<open>Generators\<close>

text \<open>
  \<^verbatim>\<open>traverse\<close>, \<^verbatim>\<open>traverse_tree_depth_first\<close> and \<^verbatim>\<open>traverse_tree_breadth_first\<close> are
  generator functions: a call runs none of the body and returns a generator object;
  each \<^verbatim>\<open>next\<close> runs the body to the following \<^verbatim>\<open>yield\<close>, to its end, or to a raise.
  A generator object is the suspended frame: the place in the body and the local variables
  that are still read.

  \<^item> \<open>Traverse ast method\<close>: \<^verbatim>\<open>traverse\<close>, not started.
  \<^item> \<open>Traverse_yield_from g\<close>: \<^verbatim>\<open>traverse\<close>, inside a \<^verbatim>\<open>yield from\<close> (line 70 or 72).
  \<^item> \<open>Depth cursor\<close>: \<^verbatim>\<open>traverse_tree_depth_first\<close>, not started.
  \<^item> \<open>Depth_yielded child rest\<close>: suspended at \<^verbatim>\<open>yield child\<close> (line 88); \<open>rest\<close> are
    the children the \<^verbatim>\<open>for\<close> loop has not reached.
  \<^item> \<open>Depth_yield_from g rest\<close>: inside the \<^verbatim>\<open>yield from\<close> of line 89.
  \<^item> \<open>Breadth cursor q\<close>: \<^verbatim>\<open>traverse_tree_breadth_first\<close>, not started; \<open>q\<close> is the
    optional deque argument.
  \<^item> \<open>Breadth_loop cursor q n\<close>: at the head of the \<^verbatim>\<open>for\<close> loop of line 105 with \<open>n\<close>
    iterations of the range left (the range was fixed when the loop was entered); between
    iterations this is the frame suspended at \<^verbatim>\<open>yield node\<close> (line 108).
  \<^item> \<open>Breadth_yield_from g\<close>: inside the \<^verbatim>\<open>yield from\<close> of line 111.
  \<^item> \<open>Exhausted\<close>: the body has returned or raised.
\<close>

datatype gen =
    Traverse tree "string option"
  | Traverse_yield_from gen
  | Depth cursor
  | Depth_yielded node "node list"
  | Depth_yield_from gen "node list"
  | Breadth cursor "nat option"
  | Breadth_loop cursor nat nat
  | Breadth_yield_from gen
  | Exhausted

datatype event = Yield node | StopIteration | Raise error

definition traverse :: "tree \<Rightarrow> string option \<Rightarrow> gen" where
  "traverse ast method = Traverse ast method"

definition traverse_tree_depth_first :: "cursor \<Rightarrow> gen" where
  "traverse_tree_depth_first cursor = Depth cursor"

definition traverse_tree_breadth_first :: "cursor \<Rightarrow> nat option \<Rightarrow> gen" where
  "traverse_tree_breadth_first cursor q = Breadth cursor q"

text \<open>The head of the loop \<^verbatim>\<open>for child in cursor.node.children\<close>.\<close>

definition depth_for :: "node list \<Rightarrow> heap \<Rightarrow> event \<times> gen \<times> heap" where
  "depth_for rest h =
     (case rest of
        [] \<Rightarrow> (StopIteration, Exhausted, h)
      | child # rest' \<Rightarrow> (Yield child, Depth_yielded child rest', h))"

text \<open>
  What a frame does with the answer of the generator it delegates to: a yielded node is
  passed on and the frame stays in the \<^verbatim>\<open>yield from\<close>; an exception passes through and ends
  the frame; when the inner generator is exhausted the frame goes on after the
  \<^verbatim>\<open>yield from\<close>, which is the end of the body in \<^verbatim>\<open>traverse\<close> and in the breadth-first
  walker, and the next round of the loop in the depth-first walker.
\<close>

definition traverse_yield_from :: "event \<times> gen \<times> heap \<Rightarrow> event \<times> gen \<times> heap" where
  "traverse_yield_from r =
     (case r of
        (Yield x, g, h) \<Rightarrow> (Yield x, Traverse_yield_from g, h)
      | (StopIteration, g, h) \<Rightarrow> (StopIteration, Exhausted, h)
      | (Raise e, g, h) \<Rightarrow> (Raise e, Exhausted, h))"

definition depth_yield_from :: "node list \<Rightarrow> event \<times> gen \<times> heap \<Rightarrow> event \<times> gen \<times> heap" where
  "depth_yield_from rest r =
     (case r of
        (Yield x, g, h) \<Rightarrow> (Yield x, Depth_yield_from g rest, h)
      | (StopIteration, g, h) \<Rightarrow> depth_for rest h
      | (Raise e, g, h) \<Rightarrow> (Raise e, Exhausted, h))"

definition breadth_yield_from :: "event \<times> gen \<times> heap \<Rightarrow> event \<times> gen \<times> heap" where
  "breadth_yield_from r =
     (case r of
        (Yield x, g, h) \<Rightarrow> (Yield x, Breadth_yield_from g, h)
      | (StopIteration, g, h) \<Rightarrow> (StopIteration, Exhausted, h)
      | (Raise e, g, h) \<Rightarrow> (Raise e, Exhausted, h))"

text \<open>
  The measure behind the termination of one \<^verbatim>\<open>next\<close>: a frame that delegates is above
  the frame it delegates to, and a breadth-first frame that has left its loop with a
  non-empty deque is above the fresh frame it starts, which enters its own loop with at
  least one iteration and so reaches a \<^verbatim>\<open>yield\<close>.
\<close>

fun rank :: "gen \<Rightarrow> heap \<Rightarrow> nat" where
  "rank (Traverse ast method) h = 2"
| "rank (Traverse_yield_from g) h = Suc (rank g h)"
| "rank (Depth cursor) h = 0"
| "rank (Depth_yielded child rest) h = 1"
| "rank (Depth_yield_from g rest) h = Suc (rank g h)"
| "rank (Breadth cursor q) h = 1"
| "rank (Breadth_loop cursor q n) h = (if n = 0 \<and> len h q \<noteq> 0 then 2 else 0)"
| "rank (Breadth_yield_from g) h = Suc (rank g h)"
| "rank Exhausted h = 0"

function gen_next :: "gen \<Rightarrow> heap \<Rightarrow> event \<times> gen \<times> heap" where
  "gen_next (Traverse ast method) h =
     (let cursor = tree_walk ast;
          method = (case method of None \<Rightarrow> ''depth_first'' | Some m \<Rightarrow> m)
      in if method = ''breadth_first''
         then traverse_yield_from (gen_next (traverse_tree_breadth_first cursor None) h)
         else if method = ''depth_first''
         then traverse_yield_from (gen_next (traverse_tree_depth_first cursor) h)
         else (Raise (ValueError method), Exhausted, h))"
| "gen_next (Traverse_yield_from g) h = traverse_yield_from (gen_next g h)"
| "gen_next (Depth cursor) h = depth_for (children (cursor_node cursor)) h"
| "gen_next (Depth_yielded child rest) h =
     depth_yield_from rest (gen_next (traverse_tree_depth_first (walk child)) h)"
| "gen_next (Depth_yield_from g rest) h = depth_yield_from rest (gen_next g h)"
| "gen_next (Breadth cursor q) h =
     (case (case q of None \<Rightarrow> deque (children (cursor_node cursor)) h | Some q \<Rightarrow> (q, h)) of
        (q, h) \<Rightarrow> gen_next (Breadth_loop cursor q (len h q)) h)"
| "gen_next (Breadth_loop cursor q (Suc n)) h =
     (case popleft h q of
        Inl e \<Rightarrow> (Raise e, Exhausted, h)
      | Inr (node, h) \<Rightarrow>
          (Yield node, Breadth_loop cursor q n,
           extend h q (children (cursor_node (walk node)))))"
| "gen_next (Breadth_loop cursor q 0) h =
     (if len h q = 0 then (StopIteration, Exhausted, h)
      else breadth_yield_from (gen_next (traverse_tree_breadth_first cursor (Some q)) h))"
| "gen_next (Breadth_yield_from g) h = breadth_yield_from (gen_next g h)"
| "gen_next Exhausted h = (StopIteration, Exhausted, h)"
  by pat_completeness auto
termination
  by (relation "measure (\<lambda>(g, h). rank g h)")
     (auto simp: traverse_tree_breadth_first_def traverse_tree_depth_first_def
        deque_def len_def split: option.splits)

text \<open>
  Consuming a generator to its end, as \<^verbatim>\<open>list(...)\<close> or a \<^verbatim>\<open>for\<close> loop does: the nodes
  yielded, and the exception that ended the run if one did. Nothing here says that the
  run ends: that is a property of the walkers, proved below.
\<close>

partial_function (option) consume :: "gen \<Rightarrow> heap \<Rightarrow> (node list \<times> error option) option" where
  "consume g h =
     (case gen_next g h of
        (Yield x, g', h') \<Rightarrow>
          Option.bind (consume g' h') (\<lambda>(xs, r). Some (x # xs, r))
      | (StopIteration, g', h') \<Rightarrow> Some ([], None)
      | (Raise e, g', h') \<Rightarrow> Some ([], Some e))"

declare consume.simps [code]

section \<open>Orders on the nodes of a tree\<close>

text \<open>
  The descriptions the walkers are measured against. They speak of the tree only and know
  nothing of generators, frames or deques. All of them recurse into the children of a
  node, which are smaller structures.
\<close>

lemma children_smaller:
  "c \<in> set (children n) \<Longrightarrow> size (subtree_of c) < size (subtree_of n)"
proof -
  assume "c \<in> set (children n)"
  then have "subtree_of c \<in> set (parts (subtree_of n))"
    by (auto simp: children_def in_set_enumerate_eq)
  then have "size (subtree_of c) < Suc (size_list size (parts (subtree_of n)))"
    by (simp add: less_Suc_eq_le size_list_estimation')
  then show ?thesis by (cases "subtree_of n") simp
qed

lemma children_subtrees: "map subtree_of (children n) = parts (subtree_of n)"
  by (simp add: children_def case_prod_unfold comp_def)

lemma children_sizes:
  "sum_list (map (\<lambda>c. size (subtree_of c)) (children n)) < size (subtree_of n)"
proof -
  have "map (\<lambda>c. size (subtree_of c)) (children n) = map size (map subtree_of (children n))"
    by simp
  then have "map (\<lambda>c. size (subtree_of c)) (children n) = map size (parts (subtree_of n))"
    by (simp only: children_subtrees)
  then show ?thesis by (cases "subtree_of n") (simp add: size_list_conv_sum_list)
qed

text \<open>Pre-order: a node, then the pre-order of each child's subtree, child by child.\<close>

function preorder :: "node \<Rightarrow> node list" where
  "preorder n = n # concat (map preorder (children n))"
  by pat_completeness auto
termination
  by (relation "measure (\<lambda>n. size (subtree_of n))") (auto simp: children_smaller)

text \<open>The nodes \<open>d\<close> levels below a node, from left to right.\<close>

fun nodes_at_depth :: "nat \<Rightarrow> node \<Rightarrow> node list" where
  "nodes_at_depth 0 n = [n]"
| "nodes_at_depth (Suc d) n = concat (map (nodes_at_depth d) (children n))"

fun max_list :: "nat list \<Rightarrow> nat" where
  "max_list [] = 0"
| "max_list (x # xs) = max x (max_list xs)"

function height :: "node \<Rightarrow> nat" where
  "height n = max_list (map (\<lambda>c. Suc (height c)) (children n))"
  by pat_completeness auto
termination
  by (relation "measure (\<lambda>n. size (subtree_of n))") (auto simp: children_smaller)

text \<open>Level order below a node: depth 1, then depth 2, and so on down to the last level.\<close>

definition level_order :: "node \<Rightarrow> node list" where
  "level_order n = concat (map (\<lambda>d. nodes_at_depth d n) [1..<Suc (height n)])"

text \<open>The number of nodes strictly below a node.\<close>

function totalDescendantCount :: "node \<Rightarrow> nat" where
  "totalDescendantCount n = sum_list (map (\<lambda>c. Suc (totalDescendantCount c)) (children n))"
  by pat_completeness auto
termination
  by (relation "measure (\<lambda>n. size (subtree_of n))") (auto simp: children_smaller)

text \<open>A tree without branching: every node has at most one child.\<close>

fun chain :: "subtree \<Rightarrow> bool" where
  "chain (Subtree k ts) = (length ts \<le> 1 \<and> list_all chain ts)"

section \<open>What a suspended generator still has to say\<close>

text \<open>
  The queue discipline of the breadth-first walker, on lists: the nodes queued, then the
  same for all their children.
\<close>

function bfs_order :: "node list \<Rightarrow> node list" where
  "bfs_order q = (if q = [] then [] else q @ bfs_order (concat (map children q)))"
  by pat_completeness auto
termination
proof (relation "measure (\<lambda>q. sum_list (map (\<lambda>c. size (subtree_of c)) q))")
  fix q :: "node list"
  assume "q \<noteq> []"
  then show "(concat (map children q), q)
      \<in> measure (\<lambda>q. sum_list (map (\<lambda>c. size (subtree_of c)) q))"
  proof (induction q rule: list_nonempty_induct)
    case (single x)
    then show ?case using children_sizes[of x] by simp
  next
    case (cons x xs)
    then show ?case using children_sizes[of x] by simp
  qed
qed simp

declare bfs_order.simps [simp del]
declare preorder.simps [simp del]
declare height.simps [simp del]
declare totalDescendantCount.simps [simp del]

definition below :: "node \<Rightarrow> node list" where
  "below n = concat (map preorder (children n))"

text \<open>
  For a frame and a store, the nodes the frame will still yield and the exception it will
  end with, read off the frame without running it.
\<close>

fun out :: "gen \<Rightarrow> heap \<Rightarrow> node list \<times> error option" where
  "out (Traverse ast method) h =
     (let m = (case method of None \<Rightarrow> ''depth_first'' | Some m \<Rightarrow> m)
      in if m = ''breadth_first'' then (bfs_order (children (root_node ast)), None)
         else if m = ''depth_first'' then (below (root_node ast), None)
         else ([], Some (ValueError m)))"
| "out (Traverse_yield_from g) h = out g h"
| "out (Depth cursor) h = (below (cursor_node cursor), None)"
| "out (Depth_yielded child rest) h = (below child @ concat (map preorder rest), None)"
| "out (Depth_yield_from g rest) h =
     (case out g h of
        (ys, None) \<Rightarrow> (ys @ concat (map preorder rest), None)
      | (ys, Some e) \<Rightarrow> (ys, Some e))"
| "out (Breadth cursor None) h = (bfs_order (children (cursor_node cursor)), None)"
| "out (Breadth cursor (Some q)) h = (bfs_order (cells h q), None)"
| "out (Breadth_loop cursor q n) h =
     (take n (cells h q)
        @ bfs_order (drop n (cells h q) @ concat (map children (take n (cells h q)))), None)"
| "out (Breadth_yield_from g) h = out g h"
| "out Exhausted h = ([], None)"

text \<open>The loop of a breadth-first frame never has more rounds left than its deque has nodes.\<close>

fun steady :: "gen \<Rightarrow> heap \<Rightarrow> bool" where
  "steady (Traverse_yield_from g) h = steady g h"
| "steady (Depth_yield_from g rest) h = steady g h"
| "steady (Breadth_loop cursor q n) h = (n \<le> len h q)"
| "steady (Breadth_yield_from g) h = steady g h"
| "steady g h = True"

section \<open>One step of a generator against its prediction\<close>

lemma preorder_below [simp]: "preorder n = n # below n"
  by (simp add: below_def preorder.simps[of n])

lemma bfs_order_Nil [simp]: "bfs_order [] = []"
  by (simp add: bfs_order.simps)

lemma bfs_order_Cons: "bfs_order (x # xs) = x # xs @ bfs_order (children x @ concat (map children xs))"
  by (simp add: bfs_order.simps[of "x # xs"])

text \<open>
  \<open>follows w r\<close>: the answer \<open>r\<close> of one \<^verbatim>\<open>next\<close> agrees with the prediction \<open>w\<close> made
  before it, and the frame left behind is steady.
\<close>

definition follows :: "node list \<times> error option \<Rightarrow> event \<times> gen \<times> heap \<Rightarrow> bool" where
  "follows w r =
     (case r of (e, g', h') \<Rightarrow>
        steady g' h' \<and>
        (case e of
           Yield x \<Rightarrow> w = (x # fst (out g' h'), snd (out g' h'))
         | StopIteration \<Rightarrow> w = ([], None) \<and> g' = Exhausted
         | Raise err \<Rightarrow> w = ([], Some err) \<and> g' = Exhausted))"

lemma follows_depth_for: "follows (concat (map preorder rest), None) (depth_for rest h)"
  by (cases rest) (simp_all add: follows_def depth_for_def)

lemma follows_traverse_yield_from:
  "follows w r \<Longrightarrow> follows w (traverse_yield_from r)"
  by (cases r; cases "fst r") (auto simp: follows_def traverse_yield_from_def)

lemma follows_breadth_yield_from:
  "follows w r \<Longrightarrow> follows w (breadth_yield_from r)"
  by (cases r; cases "fst r") (auto simp: follows_def breadth_yield_from_def)

lemma follows_depth_yield_from:
  assumes "follows w r"
  shows "follows (case w of (ys, None) \<Rightarrow> (ys @ concat (map preorder rest), None)
                           | (ys, Some e) \<Rightarrow> (ys, Some e)) (depth_yield_from rest r)"
proof (cases r)
  case (fields e g h)
  show ?thesis
  proof (cases e)
    case (Yield x)
    with fields assms show ?thesis
      by (auto simp: follows_def depth_yield_from_def split: option.splits prod.splits)
  next
    case StopIteration
    with fields assms show ?thesis
      using follows_depth_for[of rest h]
      by (simp add: follows_def depth_yield_from_def)
  next
    case (Raise err)
    with fields assms show ?thesis
      by (simp add: follows_def depth_yield_from_def)
  qed
qed


lemma bfs_order_unfold: "xs @ bfs_order (concat (map children xs)) = bfs_order xs"
  by (cases "xs = []") (simp_all add: bfs_order.simps[of xs])

lemma follows_breadth_round:
  assumes "Suc n \<le> len h q"
  shows "follows (out (Breadth_loop cursor q (Suc n)) h) (gen_next (Breadth_loop cursor q (Suc n)) h)"
proof -
  from assms obtain x xs where q: "cells h q = x # xs" and n: "n \<le> length xs"
    by (cases "cells h q") (auto simp: len_def)
  then show ?thesis
    by (simp add: follows_def popleft_def extend_def len_def walk_def)
qed

lemma follows_next: "steady g h \<Longrightarrow> follows (out g h) (gen_next g h)"
proof (induction g h rule: gen_next.induct)
  case (1 ast selector h)
  let ?m = "case selector of None \<Rightarrow> ''depth_first'' | Some m \<Rightarrow> m"
  consider (breadth) "?m = ''breadth_first''" | (depth) "?m = ''depth_first''"
    | (other) "?m \<noteq> ''breadth_first''" "?m \<noteq> ''depth_first''"
    by blast
  then show ?case
  proof cases
    case breadth
    from 1(1)[OF refl refl breadth]
    have "follows (out (Breadth (tree_walk ast) None) h) (gen_next (Breadth (tree_walk ast) None) h)"
      by (simp add: traverse_tree_breadth_first_def)
    from follows_traverse_yield_from[OF this] breadth show ?thesis
      by (simp add: traverse_tree_breadth_first_def tree_walk_def)
  next
    case depth
    then have neq: "?m \<noteq> ''breadth_first''" by simp
    from 1(2)[OF refl refl neq depth]
    have "follows (out (Depth (tree_walk ast)) h) (gen_next (Depth (tree_walk ast)) h)"
      by (simp add: traverse_tree_depth_first_def)
    from follows_traverse_yield_from[OF this] depth show ?thesis
      by (simp add: traverse_tree_depth_first_def tree_walk_def)
  next
    case other
    then show ?thesis by (simp add: follows_def)
  qed
next
  case (2 g h)
  then show ?case by (simp add: follows_traverse_yield_from)
next
  case (3 cursor h)
  then show ?case using follows_depth_for[of "children (cursor_node cursor)" h]
    by (simp add: below_def)
next
  case (4 child rest h)
  then show ?case
    using follows_depth_yield_from[of "(below child, None)" "gen_next (Depth (walk child)) h" rest]
    by (simp add: traverse_tree_depth_first_def walk_def)
next
  case (5 g rest h)
  then show ?case
    using follows_depth_yield_from[of "out g h" "gen_next g h" rest] by simp
next
  case (6 cursor q h)
  show ?case
  proof (cases q)
    case None
    let ?h = "snd (deque (children (cursor_node cursor)) h)"
    have "(used h, ?h) =
        (case q of None \<Rightarrow> deque (children (cursor_node cursor)) h | Some q \<Rightarrow> (q, h))"
      by (simp add: None deque_def)
    from 6(1)[OF this]
    have "follows (out (Breadth_loop cursor (used h) (len ?h (used h))) ?h)
        (gen_next (Breadth_loop cursor (used h) (len ?h (used h))) ?h)"
      by simp
    with None show ?thesis
      by (simp add: deque_def len_def bfs_order_unfold)
  next
    case (Some a)
    have "(a, h) =
        (case q of None \<Rightarrow> deque (children (cursor_node cursor)) h | Some q \<Rightarrow> (q, h))"
      by (simp add: Some)
    from 6(1)[OF this]
    have "follows (out (Breadth_loop cursor a (len h a)) h)
        (gen_next (Breadth_loop cursor a (len h a)) h)"
      by simp
    with Some show ?thesis by (simp add: len_def bfs_order_unfold)
  qed
next
  case (7 cursor q n h)
  then show ?case using follows_breadth_round[of n h q cursor] by simp
next
  case (8 cursor q h)
  show ?case
  proof (cases "len h q = 0")
    case True
    then show ?thesis by (simp add: follows_def len_def)
  next
    case False
    from 8(1)[OF False]
    have "follows (out (Breadth cursor (Some q)) h) (gen_next (Breadth cursor (Some q)) h)"
      by (simp add: traverse_tree_breadth_first_def)
    from follows_breadth_yield_from[OF this] False show ?thesis
      by (simp add: traverse_tree_breadth_first_def)
  qed
next
  case (9 g h)
  then show ?case by (simp add: follows_breadth_yield_from)
next
  case (10 h)
  then show ?case by (simp add: follows_def)
qed


lemma consume_out: "steady g h \<Longrightarrow> consume g h = Some (out g h)"
proof (induction "length (fst (out g h))" arbitrary: g h)
  case 0
  obtain e g' h' where r: "gen_next g h = (e, g', h')"
    by (cases "gen_next g h") auto
  with follows_next[OF "0.prems"] have f: "follows (out g h) (e, g', h')" by simp
  show ?case
  proof (cases e)
    case (Yield x)
    with f 0(1) show ?thesis by (simp add: follows_def)
  next
    case StopIteration
    with f r show ?thesis by (subst consume.simps) (simp add: follows_def)
  next
    case (Raise err)
    with f r show ?thesis by (subst consume.simps) (simp add: follows_def)
  qed
next
  case (Suc k)
  obtain e g' h' where r: "gen_next g h = (e, g', h')"
    by (cases "gen_next g h") auto
  with follows_next[OF Suc.prems] have f: "follows (out g h) (e, g', h')" by simp
  show ?case
  proof (cases e)
    case (Yield x)
    with f have o: "out g h = (x # fst (out g' h'), snd (out g' h'))" and s: "steady g' h'"
      by (simp_all add: follows_def)
    with Suc(2) have "k = length (fst (out g' h'))" by simp
    from Suc(1)[OF this s] have "consume g' h' = Some (out g' h')" .
    with r Yield o show ?thesis
      by (subst consume.simps) (simp add: case_prod_unfold)
  next
    case StopIteration
    with f Suc(2) show ?thesis by (simp add: follows_def)
  next
    case (Raise err)
    with f Suc(2) show ?thesis by (simp add: follows_def)
  qed
qed

section \<open>The example trees of the specification\<close>





text \<open>A root without children.\<close>

definition empty_tree :: tree where
  "empty_tree = Tree (Node [] (Subtree ''root'' []))"

text \<open>The chain root, X, Y, Z.\<close>

definition chain_tree :: tree where
  "chain_tree =
     Tree (Node [] (Subtree ''root'' [Subtree ''X'' [Subtree ''Y'' [Subtree ''Z'' []]]]))"

definition node_X :: node where
  "node_X = Node [0] (Subtree ''X'' [Subtree ''Y'' [Subtree ''Z'' []]])"

definition node_Y :: node where
  "node_Y = Node [0, 0] (Subtree ''Y'' [Subtree ''Z'' []])"

definition node_Z :: node where
  "node_Z = Node [0, 0, 0] (Subtree ''Z'' [])"

lemma steady_traverse [simp]: "steady (traverse ast method) h"
  by (simp add: traverse_def)

section \<open>The dispatcher\<close>



text \<open>
  Claim C9. Without a selector the traversal is the depth-first one: the first \<^verbatim>\<open>next\<close>
  answers as it does for \<^verbatim>\<open>depth_first\<close>, frame and store included, so every later step
  agrees too; the whole sequence is the same; and no error ends it.
\<close>

theorem default_strategy_is_depth_first:
  "gen_next (traverse ast None) h = gen_next (traverse ast (Some ''depth_first'')) h
   \<and> consume (traverse ast None) h = consume (traverse ast (Some ''depth_first'')) h
   \<and> consume (traverse ast None) h = Some (below (root_node ast), None)"
  by (simp add: consume_out) (simp add: traverse_def)

section \<open>The depth-first walker\<close>



end
